theory Spec2Isabelle
  imports Complex_Main "HOL-Library.Word" "HOL-Library.Log_Nat"
begin

unbundle bit_operations_syntax

section \<open>The undo engine of darktable (src/common/undo.c)\<close>

text \<open>
  The engine keeps two GLists of heap-allocated items (the undo list and the redo list,
  newest item first), a one-shot flag \<open>disable_next\<close>, the flag \<open>locked\<close> that is set
  while an operation holds the mutex, and the group state (\<open>group\<close>, \<open>group_indent\<close>).

  Conventions of the embedding.
  \<^item> Pointers (\<open>gpointer\<close>, \<open>dt_undo_data_t\<close>, function pointers, the address of an item)
    are natural numbers; a function pointer that may be \<open>NULL\<close> is an \<open>option\<close>.
  \<^item> A GList node holds a pointer to an item. An item is written once, when it is
    allocated, and never changed, so the node is modelled as the pair of the item's
    address and the item's contents. \<open>g_list_remove\<close> compares addresses only, as
    glib compares the \<open>data\<close> pointers of the nodes.
  \<^item> \<open>dt_undo_type_t\<close> and the filter masks are 32-bit words; \<open>item->type & filter\<close>
    is the bitwise AND, tested against zero.
  \<^item> The time stamps are IEEE 754 binary64 values (C \<open>double\<close>): a finite value is a
    mantissa and an exponent, and the subtraction \<open>item->ts - first_item_ts\<close> is the
    exact difference rounded to the nearest binary64, ties to even, as the default
    rounding mode does; \<open>fabs\<close> and \<open><\<close> are exact.
  \<^item> The value \<open>dt_get_wtime()\<close> returns and the address \<open>malloc\<close> returns are inputs
    of the call that reads them (\<open>now\<close> and \<open>p\<close>).
  \<^item> Calls that leave the module (an item's \<open>undo\<close> callback, a \<open>free_data\<close>
    destructor, \<open>free\<close> of an item, \<open>dt_collection_update_query\<close>) are recorded, in
    order, as the list of events an operation returns beside the new engine state.
  \<^item> The engine handle is never \<open>NULL\<close> in the model (a \<open>NULL\<close> handle makes every
    operation return at once); the mutex is not modelled: one thread runs each
    operation to its end.
  \<^item> A failed \<open>assert\<close> and a call through a \<open>NULL\<close> function pointer are the
    errors \<open>Assertion_failed\<close> and \<open>Null_call\<close>.
\<close>

subsection \<open>Data\<close>

type_synonym gpointer = nat
type_synonym dt_undo_data_t = nat
type_synonym fnptr = nat
type_synonym dt_undo_type_t = "32 word"

datatype dt_undo_action_t = DT_ACTION_UNDO | DT_ACTION_REDO

text \<open>Modelled from the spec: the header \<open>common/undo.h\<close> that declares
  \<open>DT_UNDO_NONE\<close> is not among the sources; the value that means "no group is open"
  is the empty mask.\<close>

definition DT_UNDO_NONE :: dt_undo_type_t where
  "DT_UNDO_NONE = 0"

subsection \<open>Double precision numbers\<close>

text \<open>\<open>Finite m e\<close> is the number \<open>m * 2 ^ e\<close>; it is a binary64 when the mantissa is
  below \<open>2 ^ 53\<close> in absolute value and the exponent is between \<open>-1074\<close> and \<open>971\<close>.
  \<open>Infinity s\<close> is the infinity that is negative when \<open>s\<close> holds. The sign of a zero
  is not kept: neither \<open>fabs\<close> nor \<open><\<close> depends on it.\<close>

datatype double = Finite int int | Infinity bool | NaN

definition dval :: "int \<Rightarrow> int \<Rightarrow> real" where
  "dval m e = of_int m * 2 powi e"

definition is_binary64 :: "double \<Rightarrow> bool" where
  "is_binary64 x =
     (case x of
        Finite m e \<Rightarrow> \<bar>m\<bar> < 2 ^ 53 \<and> - 1074 \<le> e \<and> e \<le> 971
      | Infinity s \<Rightarrow> True
      | NaN \<Rightarrow> True)"

text \<open>The number \<open>n * 2 ^ e\<close> rounded to the nearest binary64, ties to even: \<open>s\<close> low bits
  of \<open>n\<close> are dropped so that 53 remain and the exponent is not below \<open>-1074\<close>; the
  result is an infinity when it reaches \<open>2 ^ 1024\<close>.\<close>

definition round_binary64 :: "int \<Rightarrow> int \<Rightarrow> double" where
  "round_binary64 n e =
     (let s = max 0 (max (bitlen \<bar>n\<bar> - 53) (- 1074 - e));
          q = \<bar>n\<bar> div 2 ^ nat s;
          r = \<bar>n\<bar> mod 2 ^ nat s;
          m = (if 2 ^ nat s < 2 * r \<or> (2 * r = 2 ^ nat s \<and> odd q) then q + 1 else q)
      in if 1024 < bitlen m + (e + s) then Infinity (n < 0)
         else Finite (sgn n * m) (e + s))"

definition double_sub :: "double \<Rightarrow> double \<Rightarrow> double" where
  "double_sub x y =
     (case x of
        NaN \<Rightarrow> NaN
      | Infinity s \<Rightarrow>
          (case y of
             NaN \<Rightarrow> NaN
           | Infinity t \<Rightarrow> if s = t then NaN else Infinity s
           | Finite m e \<Rightarrow> Infinity s)
      | Finite m1 e1 \<Rightarrow>
          (case y of
             NaN \<Rightarrow> NaN
           | Infinity t \<Rightarrow> Infinity (\<not> t)
           | Finite m2 e2 \<Rightarrow>
               (let e = min e1 e2
                in round_binary64 (m1 * 2 ^ nat (e1 - e) - m2 * 2 ^ nat (e2 - e)) e)))"

fun fabs :: "double \<Rightarrow> double" where
  "fabs (Finite m e) = Finite \<bar>m\<bar> e"
| "fabs (Infinity s) = Infinity False"
| "fabs NaN = NaN"

fun double_less :: "double \<Rightarrow> double \<Rightarrow> bool" where
  "double_less NaN y = False"
| "double_less x NaN = False"
| "double_less (Infinity s) (Infinity t) = (s \<and> \<not> t)"
| "double_less (Infinity s) (Finite m e) = s"
| "double_less (Finite m e) (Infinity t) = (\<not> t)"
| "double_less (Finite m1 e1) (Finite m2 e2) = (dval m1 e1 < dval m2 e2)"

text \<open>\<open>const double MAX_TIME_PERIOD = 0.5\<close>: one half is a binary64.\<close>

definition MAX_TIME_PERIOD :: double where
  "MAX_TIME_PERIOD = Finite 1 (- 1)"

subsection \<open>Items and the engine\<close>

record dt_undo_item_t =
  user_data :: gpointer
  type :: dt_undo_type_t
  data :: dt_undo_data_t
  ts :: double
  is_group :: bool
  undo :: "fnptr option"
  free_data :: "fnptr option"

type_synonym item_ptr = "nat \<times> dt_undo_item_t"

text \<open>Modelled from the spec: \<open>dt_undo_t\<close> is declared in \<open>common/undo.h\<close>, which is
  not among the sources; its fields are the ones \<open>dt_undo_init\<close> sets (the mutex
  apart), and the nesting counter \<open>group_indent\<close> is an unbounded integer.\<close>

record dt_undo_t =
  undo_list :: "item_ptr list"
  redo_list :: "item_ptr list"
  disable_next :: bool
  locked :: bool
  group :: dt_undo_type_t
  group_indent :: int

datatype event =
    Call_undo fnptr gpointer dt_undo_type_t dt_undo_data_t dt_undo_action_t
  | Call_free_data fnptr dt_undo_data_t
  | Free nat
  | Collection_update_query

datatype error = Assertion_failed | Null_call

subsection \<open>glib list operations\<close>

fun g_list_remove :: "item_ptr list \<Rightarrow> nat \<Rightarrow> item_ptr list" where
  "g_list_remove [] p = []"
| "g_list_remove (x # xs) p = (if fst x = p then xs else x # g_list_remove xs p)"

definition free_undo_data :: "item_ptr \<Rightarrow> event list" where
  "free_undo_data p =
     (case free_data (snd p) of
        Some f \<Rightarrow> [Call_free_data f (data (snd p))]
      | None \<Rightarrow> [])
     @ [Free (fst p)]"

definition g_list_free_full :: "item_ptr list \<Rightarrow> event list" where
  "g_list_free_full xs = concat (map free_undo_data xs)"

subsection \<open>Initialisation and recording\<close>

definition dt_undo_init :: dt_undo_t where
  "dt_undo_init =
     \<lparr>undo_list = [], redo_list = [], disable_next = False, locked = False,
      group = DT_UNDO_NONE, group_indent = 0\<rparr>"

definition dt_undo_disable_next :: "dt_undo_t \<Rightarrow> dt_undo_t" where
  "dt_undo_disable_next self = self\<lparr>disable_next := True\<rparr>"

definition undo_record ::
  "dt_undo_t \<Rightarrow> nat \<Rightarrow> double \<Rightarrow> gpointer \<Rightarrow> dt_undo_type_t \<Rightarrow> dt_undo_data_t \<Rightarrow> bool
     \<Rightarrow> fnptr option \<Rightarrow> fnptr option \<Rightarrow> dt_undo_t \<times> event list" where
  "undo_record self p now ud ty d grp cb fd =
     (if disable_next self then
        (self\<lparr>disable_next := False\<rparr>,
         (case fd of Some f \<Rightarrow> [Call_free_data f d] | None \<Rightarrow> []))
      else if \<not> locked self then
        (let self1 = self\<lparr>locked := True\<rparr>;
             item = \<lparr>user_data = ud, type = ty, data = d, ts = now, is_group = grp,
                     undo = cb, free_data = fd\<rparr>;
             self2 = self1\<lparr>undo_list := (p, item) # undo_list self1\<rparr>;
             ev = g_list_free_full (redo_list self2);
             self3 = self2\<lparr>redo_list := []\<rparr>
         in (self3\<lparr>locked := False\<rparr>, ev))
      else (self, []))"

definition dt_undo_start_group ::
  "dt_undo_t \<Rightarrow> nat \<Rightarrow> double \<Rightarrow> dt_undo_type_t \<Rightarrow> dt_undo_t \<times> event list" where
  "dt_undo_start_group self p now ty =
     (if group self = DT_UNDO_NONE then
        undo_record (self\<lparr>group := ty, group_indent := 1\<rparr>) p now 0 ty 0 True None None
      else (self\<lparr>group_indent := group_indent self + 1\<rparr>, []))"

definition dt_undo_end_group ::
  "dt_undo_t \<Rightarrow> nat \<Rightarrow> double \<Rightarrow> error + dt_undo_t \<times> event list" where
  "dt_undo_end_group self p now =
     (if \<not> group_indent self > 0 then Inl Assertion_failed
      else
        (let self1 = self\<lparr>group_indent := group_indent self - 1\<rparr> in
         if group_indent self1 = 0 then
           (case undo_record self1 p now 0 (group self1) 0 True None None of
              (self2, ev) \<Rightarrow> Inr (self2\<lparr>group := DT_UNDO_NONE\<rparr>, ev))
         else Inr (self1, [])))"

definition dt_undo_record ::
  "dt_undo_t \<Rightarrow> nat \<Rightarrow> double \<Rightarrow> gpointer \<Rightarrow> dt_undo_type_t \<Rightarrow> dt_undo_data_t
     \<Rightarrow> fnptr option \<Rightarrow> fnptr option \<Rightarrow> dt_undo_t \<times> event list" where
  "dt_undo_record self p now ud ty d cb fd = undo_record self p now ud ty d False cb fd"

subsection \<open>Replay\<close>

text \<open>The loops of \<open>_undo_do_undo_redo\<close>. The cursor \<open>l\<close> is the rest of the source
  list from the node it points to; \<open>src\<close> and \<open>dst\<close> are the lists behind the pointers
  \<open>from\<close> and \<open>to\<close>; \<open>ev\<close> collects the callbacks already made.\<close>

definition matches :: "32 word \<Rightarrow> item_ptr \<Rightarrow> bool" where
  "matches flt it = (type (snd it) AND flt \<noteq> 0)"

definition call_undo :: "dt_undo_action_t \<Rightarrow> fnptr \<Rightarrow> item_ptr \<Rightarrow> event" where
  "call_undo action f it =
     Call_undo f (user_data (snd it)) (type (snd it)) (data (snd it)) action"

text \<open>The inner loop of the group branch:
  \<open>while((l = next) && !is_group) { ... }\<close>.\<close>

fun group_loop ::
  "dt_undo_action_t \<Rightarrow> item_ptr list \<Rightarrow> bool \<Rightarrow> item_ptr list \<Rightarrow> item_ptr list
     \<Rightarrow> event list \<Rightarrow> error + item_ptr list \<times> item_ptr list \<times> event list" where
  "group_loop action [] grp src dst ev = Inr (src, dst, ev)"
| "group_loop action (it # next) grp src dst ev =
     (if grp then Inr (src, dst, ev)
      else
        (let src1 = g_list_remove src (fst it) in
         if is_group (snd it) then group_loop action next True src1 (it # dst) ev
         else
           (case undo (snd it) of
              None \<Rightarrow> Inl Null_call
            | Some f \<Rightarrow>
                group_loop action next False src1 (it # dst) (ev @ [call_undo action f it]))))"

text \<open>The do-while loop of the plain branch; \<open>it\<close> is the current item, \<open>next\<close> the
  nodes after it.\<close>

fun plain_loop ::
  "dt_undo_action_t \<Rightarrow> 32 word \<Rightarrow> double \<Rightarrow> item_ptr \<Rightarrow> item_ptr list \<Rightarrow> bool
     \<Rightarrow> item_ptr list \<Rightarrow> item_ptr list \<Rightarrow> event list
     \<Rightarrow> error + item_ptr list \<times> item_ptr list \<times> event list" where
  "plain_loop action flt first_item_ts it next in_group src dst ev =
     (let src1 = g_list_remove src (fst it) in
      if \<not> is_group (snd it) \<and> undo (snd it) = None then Inl Null_call
      else
        (let in_group1 = (if is_group (snd it) then \<not> in_group else in_group);
             ev1 = (if is_group (snd it) then ev
                    else ev @ [call_undo action (the (undo (snd it))) it]);
             dst1 = it # dst
         in case next of
              [] \<Rightarrow> Inr (src1, dst1, ev1)
            | it2 # next2 \<Rightarrow>
                if matches flt it2
                   \<and> (in_group1
                       \<or> double_less (fabs (double_sub (ts (snd it2)) first_item_ts))
                            MAX_TIME_PERIOD)
                then plain_loop action flt first_item_ts it2 next2 in_group1 src1 dst1 ev1
                else Inr (src1, dst1, ev1)))"

text \<open>The outer loop: the first item that matches the filter decides the branch.\<close>

fun scan_loop ::
  "dt_undo_action_t \<Rightarrow> 32 word \<Rightarrow> item_ptr list \<Rightarrow> item_ptr list \<Rightarrow> item_ptr list
     \<Rightarrow> error + item_ptr list \<times> item_ptr list \<times> event list" where
  "scan_loop action flt [] src dst = Inr (src, dst, [])"
| "scan_loop action flt (it # next) src dst =
     (if matches flt it then
        (if is_group (snd it) then
           group_loop action next False (g_list_remove src (fst it)) (it # dst) []
         else plain_loop action flt (ts (snd it)) it next False src dst [])
      else scan_loop action flt next src dst)"

definition undo_do_undo_redo ::
  "dt_undo_t \<Rightarrow> 32 word \<Rightarrow> dt_undo_action_t \<Rightarrow> error + dt_undo_t \<times> event list" where
  "undo_do_undo_redo self flt action =
     (let self1 = self\<lparr>locked := True\<rparr>;
          src = (if action = DT_ACTION_UNDO then undo_list self1 else redo_list self1);
          dst = (if action = DT_ACTION_UNDO then redo_list self1 else undo_list self1)
      in case scan_loop action flt src src dst of
           Inl e \<Rightarrow> Inl e
         | Inr (src1, dst1, ev) \<Rightarrow>
             (let self2 = (if action = DT_ACTION_UNDO
                           then self1\<lparr>undo_list := src1, redo_list := dst1\<rparr>
                           else self1\<lparr>undo_list := dst1, redo_list := src1\<rparr>)
              in Inr (self2\<lparr>locked := False\<rparr>, ev @ [Collection_update_query])))"

definition dt_undo_do_redo :: "dt_undo_t \<Rightarrow> 32 word \<Rightarrow> error + dt_undo_t \<times> event list" where
  "dt_undo_do_redo self flt = undo_do_undo_redo self flt DT_ACTION_REDO"

definition dt_undo_do_undo :: "dt_undo_t \<Rightarrow> 32 word \<Rightarrow> error + dt_undo_t \<times> event list" where
  "dt_undo_do_undo self flt = undo_do_undo_redo self flt DT_ACTION_UNDO"

subsection \<open>Clearing\<close>

fun undo_clear_list_loop ::
  "item_ptr list \<Rightarrow> 32 word \<Rightarrow> item_ptr list \<Rightarrow> event list \<Rightarrow> item_ptr list \<times> event list" where
  "undo_clear_list_loop [] flt lst ev = (lst, ev)"
| "undo_clear_list_loop (it # next) flt lst ev =
     (if matches flt it
      then undo_clear_list_loop next flt (g_list_remove lst (fst it)) (ev @ free_undo_data it)
      else undo_clear_list_loop next flt lst ev)"

definition undo_clear_list :: "item_ptr list \<Rightarrow> 32 word \<Rightarrow> item_ptr list \<times> event list" where
  "undo_clear_list lst flt = undo_clear_list_loop lst flt lst []"

definition dt_undo_clear :: "dt_undo_t \<Rightarrow> 32 word \<Rightarrow> dt_undo_t \<times> event list" where
  "dt_undo_clear self flt =
     (let self1 = self\<lparr>locked := True\<rparr>;
          (ul, ev1) = undo_clear_list (undo_list self1) flt;
          self2 = self1\<lparr>undo_list := ul\<rparr>;
          (rl, ev2) = undo_clear_list (redo_list self2) flt;
          self3 = self2\<lparr>redo_list := rl\<rparr>;
          self4 = self3\<lparr>undo_list := [], redo_list := [], disable_next := False\<rparr>
      in (self4\<lparr>locked := False\<rparr>, ev1 @ ev2))"

subsection \<open>The public operations as calls\<close>

text \<open>A call of the public interface with its arguments; \<open>api_run\<close> makes a list of
  calls one after the other, stops at the first error, and returns the events of all
  of them.\<close>

datatype api_call =
    Record nat double gpointer dt_undo_type_t dt_undo_data_t "fnptr option" "fnptr option"
  | Start_group nat double dt_undo_type_t
  | End_group nat double
  | Disable_next
  | Do_undo "32 word"
  | Do_redo "32 word"
  | Clear "32 word"

fun api_step :: "dt_undo_t \<Rightarrow> api_call \<Rightarrow> error + dt_undo_t \<times> event list" where
  "api_step self (Record p now ud ty d cb fd) = Inr (dt_undo_record self p now ud ty d cb fd)"
| "api_step self (Start_group p now ty) = Inr (dt_undo_start_group self p now ty)"
| "api_step self (End_group p now) = dt_undo_end_group self p now"
| "api_step self Disable_next = Inr (dt_undo_disable_next self, [])"
| "api_step self (Do_undo flt) = dt_undo_do_undo self flt"
| "api_step self (Do_redo flt) = dt_undo_do_redo self flt"
| "api_step self (Clear flt) = Inr (dt_undo_clear self flt)"

fun api_run :: "dt_undo_t \<Rightarrow> api_call list \<Rightarrow> error + dt_undo_t \<times> event list" where
  "api_run self [] = Inr (self, [])"
| "api_run self (c # cs) =
     (case api_step self c of
        Inl e \<Rightarrow> Inl e
      | Inr (self1, ev1) \<Rightarrow>
          (case api_run self1 cs of
             Inl e \<Rightarrow> Inl e
           | Inr (self2, ev2) \<Rightarrow> Inr (self2, ev1 @ ev2)))"

subsection \<open>Vocabulary of the properties\<close>

text \<open>The list an action reads and the list it writes.\<close>

definition source :: "dt_undo_action_t \<Rightarrow> dt_undo_t \<Rightarrow> item_ptr list" where
  "source action self = (if action = DT_ACTION_UNDO then undo_list self else redo_list self)"

definition dest :: "dt_undo_action_t \<Rightarrow> dt_undo_t \<Rightarrow> item_ptr list" where
  "dest action self = (if action = DT_ACTION_UNDO then redo_list self else undo_list self)"

text \<open>A whole number of seconds as a time stamp.\<close>

definition sec :: "int \<Rightarrow> double" where
  "sec n = Finite n 0"

text \<open>The item a group call records (a sentinel), and a plain item without payload.\<close>

definition sentinel :: "dt_undo_type_t \<Rightarrow> double \<Rightarrow> dt_undo_item_t" where
  "sentinel ty now =
     \<lparr>user_data = 0, type = ty, data = 0, ts = now, is_group = True,
      undo = None, free_data = None\<rparr>"

definition plain_item :: "dt_undo_type_t \<Rightarrow> double \<Rightarrow> fnptr \<Rightarrow> dt_undo_item_t" where
  "plain_item ty now f =
     \<lparr>user_data = 0, type = ty, data = 0, ts = now, is_group = False,
      undo = Some f, free_data = None\<rparr>"

text \<open>Every plain item of a list has an \<open>undo\<close> callback.\<close>

definition valid_callbacks :: "item_ptr list \<Rightarrow> bool" where
  "valid_callbacks xs = list_all (\<lambda>it. is_group (snd it) \<or> undo (snd it) \<noteq> None) xs"

text \<open>The callbacks a replay of the items \<open>xs\<close>, in this order, makes.\<close>

fun replay_events :: "dt_undo_action_t \<Rightarrow> item_ptr list \<Rightarrow> event list" where
  "replay_events action [] = []"
| "replay_events action (it # xs) =
     (if is_group (snd it) then replay_events action xs
      else call_undo action (the (undo (snd it))) it # replay_events action xs)"

text \<open>What follows the head of a batch. After a sentinel: the items up to the next
  sentinel, that one included. After a plain item stamped \<open>t0\<close>: the items that match
  the filter and are inside a group of the run or pass the time test of the code
  against \<open>t0\<close>, up to the first one that does neither.\<close>

fun group_batch :: "item_ptr list \<Rightarrow> item_ptr list" where
  "group_batch [] = []"
| "group_batch (it # xs) = (if is_group (snd it) then [it] else it # group_batch xs)"

fun coalesce_run :: "32 word \<Rightarrow> double \<Rightarrow> bool \<Rightarrow> item_ptr list \<Rightarrow> item_ptr list" where
  "coalesce_run flt t0 in_group [] = []"
| "coalesce_run flt t0 in_group (it # xs) =
     (if matches flt it
         \<and> (in_group \<or> double_less (fabs (double_sub (ts (snd it)) t0)) MAX_TIME_PERIOD)
      then it # coalesce_run flt t0 (if is_group (snd it) then \<not> in_group else in_group) xs
      else [])"

definition batch :: "32 word \<Rightarrow> item_ptr list \<Rightarrow> item_ptr list" where
  "batch flt xs =
     (case dropWhile (\<lambda>it. \<not> matches flt it) xs of
        [] \<Rightarrow> []
      | it # rest \<Rightarrow>
          if is_group (snd it) then it # group_batch rest
          else it # coalesce_run flt (ts (snd it)) False rest)"

text \<open>What a replay leaves in the source list: the items in front of the head of the
  batch and the items behind the batch.\<close>

definition remaining :: "32 word \<Rightarrow> item_ptr list \<Rightarrow> item_ptr list" where
  "remaining flt xs =
     takeWhile (\<lambda>it. \<not> matches flt it) xs
     @ drop (length (batch flt xs)) (dropWhile (\<lambda>it. \<not> matches flt it) xs)"

text \<open>The engine state after a replay that left \<open>src\<close> in the list it read and \<open>dst\<close> in
  the list it wrote.\<close>

definition after_replay ::
  "dt_undo_action_t \<Rightarrow> dt_undo_t \<Rightarrow> item_ptr list \<Rightarrow> item_ptr list \<Rightarrow> dt_undo_t" where
  "after_replay action self src dst =
     (if action = DT_ACTION_UNDO
      then self\<lparr>undo_list := src, redo_list := dst, locked := False\<rparr>
      else self\<lparr>undo_list := dst, redo_list := src, locked := False\<rparr>)"

text \<open>Reading a list of items in recording order: outside any group, inside a group
  of some kind, or broken (a sentinel inside a group that is of another kind).\<close>

datatype scan_state = Outside | Inside dt_undo_type_t | Broken

fun sentinel_step :: "item_ptr \<Rightarrow> scan_state \<Rightarrow> scan_state" where
  "sentinel_step it Broken = Broken"
| "sentinel_step it Outside =
     (if is_group (snd it) then Inside (type (snd it)) else Outside)"
| "sentinel_step it (Inside k) =
     (if is_group (snd it) then (if type (snd it) = k then Outside else Broken)
      else Inside k)"

text \<open>The undo list holds the newest item first, so \<open>foldr\<close> reads it in recording
  order; the redo list holds the items in recording order. The stacks are flat when
  each sentinel that opens a group is followed by plain items and one sentinel of the
  same kind that closes it, and only the group that is still open lacks its closing
  sentinel.\<close>

definition flat_stacks :: "dt_undo_t \<Rightarrow> bool" where
  "flat_stacks self =
     (foldr sentinel_step (undo_list self) Outside
        = (if group self = DT_UNDO_NONE then Outside else Inside (group self))
      \<and> foldr sentinel_step (rev (redo_list self)) Outside = Outside)"

text \<open>The calls that record and group, with a kind other than \<open>DT_UNDO_NONE\<close> for a
  group.\<close>

fun grouping_call :: "api_call \<Rightarrow> bool" where
  "grouping_call (Record p now ud ty d cb fd) = True"
| "grouping_call (Start_group p now ty) = (ty \<noteq> DT_UNDO_NONE)"
| "grouping_call (End_group p now) = True"
| "grouping_call c = False"

text \<open>What holds between two calls as long as only the calls above are made: no
  replay is in progress, the one-shot flag is clear, the redo list is empty, the depth
  is zero exactly when no group is open, and the undo list, read in recording order,
  ends inside the open group or outside any group.\<close>

definition grouping_inv :: "dt_undo_t \<Rightarrow> bool" where
  "grouping_inv self =
     (\<not> locked self \<and> \<not> disable_next self \<and> redo_list self = []
      \<and> 0 \<le> group_indent self
      \<and> (group self = DT_UNDO_NONE) = (group_indent self = 0)
      \<and> foldr sentinel_step (undo_list self) Outside
          = (if group self = DT_UNDO_NONE then Outside else Inside (group self)))"

subsection \<open>What a replay does to the two lists\<close>

text \<open>When no item in front of the cursor has the address of the item at the cursor,
  \<open>g_list_remove\<close> takes out the node the cursor is at, and the loops move the batch, item by item, to the
  front of the other list.\<close>

lemma g_list_remove_append:
  "p \<notin> fst ` set pre \<Longrightarrow> g_list_remove (pre @ (p, x) # rest) p = pre @ rest"
  by (induction pre) auto

lemma group_loop_closed: "group_loop action l True src dst ev = Inr (src, dst, ev)"
  by (cases l) auto

lemma group_loop_batch:
  "fst ` set pre \<inter> fst ` set l = {} \<Longrightarrow> valid_callbacks (group_batch l) \<Longrightarrow>
   group_loop action l False (pre @ l) dst ev =
     Inr (pre @ drop (length (group_batch l)) l, rev (group_batch l) @ dst,
          ev @ replay_events action (group_batch l))"
proof (induction l arbitrary: dst ev)
  case Nil
  then show ?case by simp
next
  case (Cons it l)
  obtain p x where it: "it = (p, x)" by (cases it)
  from Cons.prems(1) have fresh: "p \<notin> fst ` set pre" and d: "fst ` set pre \<inter> fst ` set l = {}"
    by (auto simp: it)
  have rm: "g_list_remove (pre @ (p, x) # l) p = pre @ l"
    using fresh by (simp add: g_list_remove_append)
  show ?case
  proof (cases "is_group x")
    case True
    then show ?thesis by (simp add: rm it group_loop_closed)
  next
    case False
    with Cons.prems(2) obtain f where f: "undo x = Some f" and v: "valid_callbacks (group_batch l)"
      by (auto simp: it valid_callbacks_def)
    show ?thesis
      using False f Cons.IH [OF d v] rm by (simp add: it)
  qed
qed

declare plain_loop.simps [simp del]

lemma plain_loop_batch:
  "fst ` set pre \<inter> fst ` set (it # next) = {} \<Longrightarrow>
   valid_callbacks (it # coalesce_run flt t0 (if is_group (snd it) then \<not> ig else ig) next) \<Longrightarrow>
   plain_loop action flt t0 it next ig (pre @ it # next) dst ev =
     Inr (pre @ drop (length (coalesce_run flt t0 (if is_group (snd it) then \<not> ig else ig) next)) next,
          rev (coalesce_run flt t0 (if is_group (snd it) then \<not> ig else ig) next) @ it # dst,
          ev @ replay_events action (it # coalesce_run flt t0 (if is_group (snd it) then \<not> ig else ig) next))"
proof (induction "next" arbitrary: it ig dst ev)
  case Nil
  obtain p x where it: "it = (p, x)" by (cases it)
  from Nil.prems(1) have fresh: "p \<notin> fst ` set pre" by (auto simp: it)
  have rm: "g_list_remove (pre @ [it]) (fst it) = pre"
    using g_list_remove_append [OF fresh, of x "[]"] by (simp add: it)
  show ?case
    using Nil.prems(2) rm
    by (subst plain_loop.simps) (auto simp: it valid_callbacks_def Let_def)
next
  case (Cons it2 nxt)
  obtain p x where it: "it = (p, x)" by (cases it)
  from Cons.prems(1) have fresh: "p \<notin> fst ` set pre"
    and d: "fst ` set pre \<inter> fst ` set (it2 # nxt) = {}" by (auto simp: it)
  have rm: "g_list_remove (pre @ it # it2 # nxt) (fst it) = pre @ it2 # nxt"
    using g_list_remove_append [OF fresh] by (simp add: it)
  define ig1 where "ig1 = (if is_group (snd it) then \<not> ig else ig)"
  have ok: "is_group x \<or> undo x \<noteq> None"
    using Cons.prems(2) by (simp add: it valid_callbacks_def)
  show ?case
  proof (cases "matches flt it2
      \<and> (ig1 \<or> double_less (fabs (double_sub (ts (snd it2)) t0)) MAX_TIME_PERIOD)")
    case True
    then have run: "coalesce_run flt t0 ig1 (it2 # nxt) =
        it2 # coalesce_run flt t0 (if is_group (snd it2) then \<not> ig1 else ig1) nxt"
      by simp
    have v: "valid_callbacks (it2 # coalesce_run flt t0 (if is_group (snd it2) then \<not> ig1 else ig1) nxt)"
      using Cons.prems(2) run by (simp add: valid_callbacks_def ig1_def)
    note IH = Cons.IH [OF d v]
    show ?thesis
      apply (subst plain_loop.simps)
      using True ok 
      apply (simp add: rm Let_def ig1_def [symmetric] del: coalesce_run.simps)
      apply (simp only: run)
      using IH
      apply (auto simp: it)
      done
  next
    case False
    then have run: "coalesce_run flt t0 ig1 (it2 # nxt) = []" by auto
    show ?thesis
      apply (subst plain_loop.simps)
      using False ok
      apply (simp add: rm Let_def ig1_def [symmetric] del: coalesce_run.simps)
      apply (simp only: run)
      apply (auto simp: it)
      done
  qed
qed

lemma group_batch_take: "group_batch l @ drop (length (group_batch l)) l = l"
  by (induction l) auto

lemma coalesce_run_take:
  "coalesce_run flt t0 ig l @ drop (length (coalesce_run flt t0 ig l)) l = l"
  by (induction l arbitrary: ig) auto

lemma batch_split:
  "dropWhile (\<lambda>it. \<not> matches flt it) xs
     = batch flt xs @ drop (length (batch flt xs)) (dropWhile (\<lambda>it. \<not> matches flt it) xs)"
proof (cases "dropWhile (\<lambda>it. \<not> matches flt it) xs")
  case Nil
  show ?thesis unfolding batch_def Nil by simp
next
  case (Cons it rest)
  then show ?thesis
    using group_batch_take [of rest] coalesce_run_take [of flt "ts (snd it)" False rest]
    by (simp add: batch_def)
qed

lemma source_split:
  "xs = takeWhile (\<lambda>it. \<not> matches flt it) xs @ batch flt xs
        @ drop (length (batch flt xs)) (dropWhile (\<lambda>it. \<not> matches flt it) xs)"
  using batch_split [of flt xs] takeWhile_dropWhile_id [of "\<lambda>it. \<not> matches flt it" xs]
  by simp

lemma scan_loop_batch:
  "fst ` set (pre @ takeWhile (\<lambda>it. \<not> matches flt it) l)
     \<inter> fst ` set (dropWhile (\<lambda>it. \<not> matches flt it) l) = {} \<Longrightarrow>
   valid_callbacks (batch flt l) \<Longrightarrow>
   scan_loop action flt l (pre @ l) dst =
     Inr (pre @ remaining flt l, rev (batch flt l) @ dst, replay_events action (batch flt l))"
proof (induction l arbitrary: pre)
  case Nil
  then show ?case by (simp add: remaining_def batch_def)
next
  case (Cons it l)
  obtain p x where it: "it = (p, x)" by (cases it)
  show ?case
  proof (cases "matches flt it")
    case False
    have d: "fst ` set ((pre @ [it]) @ takeWhile (\<lambda>it. \<not> matches flt it) l)
               \<inter> fst ` set (dropWhile (\<lambda>it. \<not> matches flt it) l) = {}"
      using Cons.prems(1) False by simp
    have v: "valid_callbacks (batch flt l)" using Cons.prems(2) False by (simp add: batch_def)
    show ?thesis
      using Cons.IH [OF d v] False by (simp add: remaining_def batch_def)
  next
    case True
    from Cons.prems(1) True have dis: "fst ` set pre \<inter> fst ` set (it # l) = {}" by simp
    then have fresh: "p \<notin> fst ` set pre" and d: "fst ` set pre \<inter> fst ` set l = {}"
      by (auto simp: it)
    have rm: "g_list_remove (pre @ (p, x) # l) p = pre @ l"
      using fresh by (simp add: g_list_remove_append)
    show ?thesis
    proof (cases "is_group x")
      case grp: True
      have v: "valid_callbacks (group_batch l)"
        using Cons.prems(2) True grp by (simp add: batch_def it valid_callbacks_def)
      show ?thesis
        using True grp rm group_loop_batch [OF d v, of action "it # dst" "[]"]
        by (simp add: it remaining_def batch_def)
    next
      case plain: False
      have v: "valid_callbacks (it # coalesce_run flt (ts (snd it))
                 (if is_group (snd it) then \<not> False else False) l)"
        using Cons.prems(2) True plain by (simp add: batch_def it)
      show ?thesis
        using True plain plain_loop_batch [OF dis v, of action dst "[]"]
        by (simp add: it remaining_def batch_def)
    qed
  qed
qed

lemma undo_do_undo_redo_general:
  assumes "fst ` set (takeWhile (\<lambda>it. \<not> matches flt it) (source action self))
             \<inter> fst ` set (dropWhile (\<lambda>it. \<not> matches flt it) (source action self)) = {}"
    and "valid_callbacks (batch flt (source action self))"
  shows "undo_do_undo_redo self flt action =
           Inr (after_replay action self (remaining flt (source action self))
                  (rev (batch flt (source action self)) @ dest action self),
                replay_events action (batch flt (source action self)) @ [Collection_update_query])"
proof -
  have "scan_loop action flt (source action self) ([] @ source action self) (dest action self) =
     Inr ([] @ remaining flt (source action self),
          rev (batch flt (source action self)) @ dest action self,
          replay_events action (batch flt (source action self)))"
    using assms by (intro scan_loop_batch) simp_all
  then show ?thesis
    by (cases action)
      (simp_all add: undo_do_undo_redo_def source_def dest_def after_replay_def Let_def)
qed

lemma distinct_take_drop_While:
  "distinct (map fst xs) \<Longrightarrow> fst ` set (takeWhile P xs) \<inter> fst ` set (dropWhile P xs) = {}"
proof -
  assume "distinct (map fst xs)"
  then have "distinct (map fst (takeWhile P xs) @ map fst (dropWhile P xs))"
    by (simp flip: map_append)
  then show ?thesis by simp
qed

lemma valid_callbacks_batch: "valid_callbacks xs \<Longrightarrow> valid_callbacks (batch flt xs)"
proof -
  assume v: "valid_callbacks xs"
  have "set (batch flt xs) \<subseteq> set xs"
    by (subst (2) source_split [of xs flt]) auto
  with v show ?thesis by (auto simp: valid_callbacks_def list_all_iff)
qed

lemma undo_do_undo_redo_batch:
  assumes "distinct (map fst (source action self))"
    and "valid_callbacks (source action self)"
  shows "undo_do_undo_redo self flt action =
           Inr (after_replay action self (remaining flt (source action self))
                  (rev (batch flt (source action self)) @ dest action self),
                replay_events action (batch flt (source action self)) @ [Collection_update_query])"
  using assms by (intro undo_do_undo_redo_general distinct_take_drop_While valid_callbacks_batch)

lemma undo_do_undo_redo_front:
  assumes "source action self = it # rest" and "matches flt it"
    and "valid_callbacks (source action self)"
  shows "undo_do_undo_redo self flt action =
           Inr (after_replay action self (remaining flt (source action self))
                  (rev (batch flt (source action self)) @ dest action self),
                replay_events action (batch flt (source action self)) @ [Collection_update_query])"
  using assms by (intro undo_do_undo_redo_general valid_callbacks_batch) simp_all

subsection \<open>Clearing: both lists end empty\<close>

lemma g_list_free_full_releases:
  assumes "it \<in> set xs"
  shows "Free (fst it) \<in> set (concat (map free_undo_data xs))"
    and "free_data (snd it) = Some f \<Longrightarrow>
         Call_free_data f (data (snd it)) \<in> set (concat (map free_undo_data xs))"
proof -
  have "Free (fst it) \<in> set (free_undo_data it)"
    by (simp add: free_undo_data_def)
  with assms show "Free (fst it) \<in> set (concat (map free_undo_data xs))" by auto
next
  assume "free_data (snd it) = Some f"
  then have "Call_free_data f (data (snd it)) \<in> set (free_undo_data it)"
    by (simp add: free_undo_data_def)
  with assms show "Call_free_data f (data (snd it)) \<in> set (concat (map free_undo_data xs))"
    by auto
qed

lemma undo_clear_list_loop_events:
  "snd (undo_clear_list_loop l flt lst ev) = ev @ concat (map free_undo_data (filter (matches flt) l))"
  by (induction l arbitrary: lst ev) auto

text \<open>
  C1. For every filter mask and every engine state, \<open>dt_undo_clear\<close> leaves the undo
  list and the redo list empty, whatever the kinds of the items in them. During the
  filtering pass each item whose kind matches the mask is released: its \<open>free_data\<close>
  destructor, when it has one, is called on its payload, and then the item is freed;
  the items of the undo list come first, then those of the redo list, and these are all
  the events of the call.
\<close>

theorem dt_undo_clear_empties_both:
  "undo_list (fst (dt_undo_clear self flt)) = []
   \<and> redo_list (fst (dt_undo_clear self flt)) = []
   \<and> snd (dt_undo_clear self flt) =
       concat (map (\<lambda>it. (case free_data (snd it) of
                             Some f \<Rightarrow> [Call_free_data f (data (snd it))]
                           | None \<Rightarrow> [])
                          @ [Free (fst it)])
                 (filter (\<lambda>it. type (snd it) AND flt \<noteq> 0) (undo_list self)
                  @ filter (\<lambda>it. type (snd it) AND flt \<noteq> 0) (redo_list self)))
   \<and> list_all (\<lambda>it. Free (fst it) \<in> set (snd (dt_undo_clear self flt)))
        (filter (\<lambda>it. type (snd it) AND flt \<noteq> 0) (undo_list self @ redo_list self))
   \<and> list_all (\<lambda>it. case free_data (snd it) of
                        Some f \<Rightarrow> Call_free_data f (data (snd it))
                                    \<in> set (snd (dt_undo_clear self flt))
                      | None \<Rightarrow> True)
        (filter (\<lambda>it. type (snd it) AND flt \<noteq> 0) (undo_list self @ redo_list self))"
proof -
  let ?m = "\<lambda>it. type (snd it) AND flt \<noteq> 0"
  let ?all = "filter ?m (undo_list self) @ filter ?m (redo_list self)"
  have m: "matches flt = ?m"
    by (rule ext) (simp add: matches_def)
  have "snd (undo_clear_list xs flt)
          = concat (map free_undo_data (filter (matches flt) xs))" for xs
    by (simp add: undo_clear_list_def undo_clear_list_loop_events)
  then have ev: "snd (dt_undo_clear self flt) = concat (map free_undo_data ?all)"
    by (simp add: dt_undo_clear_def Let_def split_beta m)
  have lists: "undo_list (fst (dt_undo_clear self flt)) = []
      \<and> redo_list (fst (dt_undo_clear self flt)) = []"
    by (simp add: dt_undo_clear_def Let_def split_beta)
  have explicit: "free_undo_data
      = (\<lambda>it. (case free_data (snd it) of
                  Some f \<Rightarrow> [Call_free_data f (data (snd it))]
                | None \<Rightarrow> [])
               @ [Free (fst it)])"
    by (rule ext) (simp add: free_undo_data_def)
  have freed: "list_all (\<lambda>it. Free (fst it) \<in> set (snd (dt_undo_clear self flt))) ?all"
    unfolding list_all_iff ev using g_list_free_full_releases(1) by blast
  have released: "list_all (\<lambda>it. case free_data (snd it) of
                        Some f \<Rightarrow> Call_free_data f (data (snd it))
                                    \<in> set (snd (dt_undo_clear self flt))
                      | None \<Rightarrow> True) ?all"
    unfolding list_all_iff ev
  proof
    fix it assume "it \<in> set ?all"
    from g_list_free_full_releases(2) [OF this]
    show "case free_data (snd it) of
            Some f \<Rightarrow> Call_free_data f (data (snd it)) \<in> set (concat (map free_undo_data ?all))
          | None \<Rightarrow> True"
      by (cases "free_data (snd it)") simp_all
  qed
  show ?thesis
    using lists ev freed released unfolding explicit by simp
qed

theorem dt_undo_clear_empties_both_witness:
  "dt_undo_clear
     (dt_undo_init\<lparr>undo_list := [(3, (plain_item 1 (sec 2) 7)\<lparr>data := 5, free_data := Some 8\<rparr>),
                                   (2, (plain_item 2 (sec 1) 7)\<lparr>data := 6, free_data := Some 9\<rparr>)],
                    redo_list := [(1, plain_item 1 (sec 0) 7)],
                    disable_next := True\<rparr>) 1
   = (dt_undo_init, [Call_free_data 8 5, Free 3, Free 1])"
proof -
  have "snd (dt_undo_clear
     (dt_undo_init\<lparr>undo_list := [(3, (plain_item 1 (sec 2) 7)\<lparr>data := 5, free_data := Some 8\<rparr>),
                                   (2, (plain_item 2 (sec 1) 7)\<lparr>data := 6, free_data := Some 9\<rparr>)],
                    redo_list := [(1, plain_item 1 (sec 0) 7)],
                    disable_next := True\<rparr>) 1) = [Call_free_data 8 5, Free 3, Free 1]"
    using dt_undo_clear_empties_both
      [of "dt_undo_init\<lparr>undo_list :=
                            [(3, (plain_item 1 (sec 2) 7)\<lparr>data := 5, free_data := Some 8\<rparr>),
                             (2, (plain_item 2 (sec 1) 7)\<lparr>data := 6, free_data := Some 9\<rparr>)],
                          redo_list := [(1, plain_item 1 (sec 0) 7)],
                          disable_next := True\<rparr>" 1]
    by (simp add: dt_undo_init_def plain_item_def)
  moreover have "fst (dt_undo_clear
     (dt_undo_init\<lparr>undo_list := [(3, (plain_item 1 (sec 2) 7)\<lparr>data := 5, free_data := Some 8\<rparr>),
                                   (2, (plain_item 2 (sec 1) 7)\<lparr>data := 6, free_data := Some 9\<rparr>)],
                    redo_list := [(1, plain_item 1 (sec 0) 7)],
                    disable_next := True\<rparr>) 1) = dt_undo_init"
    by (simp add: dt_undo_clear_def dt_undo_init_def Let_def split_beta)
  ultimately show ?thesis by (simp add: prod_eq_iff)
qed

subsection \<open>Recording\<close>

lemma matches_own_kind: "matches (type (snd it)) it = (type (snd it) \<noteq> 0)"
  by (simp add: matches_def)

lemma redo_of_empty_list:
  "redo_list self = [] \<Longrightarrow> \<not> locked self \<Longrightarrow>
   undo_do_undo_redo self flt DT_ACTION_REDO = Inr (self, [Collection_update_query])"
  by (simp add: undo_do_undo_redo_def)

text \<open>
  C5. A call of \<open>_undo_record\<close> that stores its item (the one-shot flag is clear and no
  replay is in progress) puts the item at the front of the undo list and discards the
  whole redo list: every item that was in it is released (its destructor called when it
  has one, the item freed). A redo right after it, with any mask, finds nothing to
  replay and leaves both lists as they are.
\<close>

theorem record_invalidates_redo:
  assumes "\<not> disable_next self" and "\<not> locked self"
  shows "(let item = \<lparr>user_data = ud, type = ty, data = d, ts = now, is_group = grp,
                       undo = cb, free_data = fd\<rparr>;
              self1 = self\<lparr>undo_list := (p, item) # undo_list self, redo_list := []\<rparr>;
              ev = snd (undo_record self p now ud ty d grp cb fd)
          in undo_record self p now ud ty d grp cb fd
               = (self1, concat (map free_undo_data (redo_list self)))
             \<and> list_all (\<lambda>it. Free (fst it) \<in> set ev) (redo_list self)
             \<and> list_all (\<lambda>it. case free_data (snd it) of
                                  Some f \<Rightarrow> Call_free_data f (data (snd it)) \<in> set ev
                                | None \<Rightarrow> True) (redo_list self)
             \<and> undo_do_undo_redo self1 flt DT_ACTION_REDO = Inr (self1, [Collection_update_query]))"
proof -
  have rec: "undo_record self p now ud ty d grp cb fd
      = (self\<lparr>undo_list := (p, \<lparr>user_data = ud, type = ty, data = d, ts = now, is_group = grp,
                       undo = cb, free_data = fd\<rparr>) # undo_list self, redo_list := []\<rparr>,
         concat (map free_undo_data (redo_list self)))"
    using assms by (simp add: undo_record_def Let_def g_list_free_full_def)
  have redo: "undo_do_undo_redo (self\<lparr>undo_list := xs, redo_list := []\<rparr>) flt DT_ACTION_REDO
      = Inr (self\<lparr>undo_list := xs, redo_list := []\<rparr>, [Collection_update_query])" for xs
    using assms(2) by (simp add: redo_of_empty_list)
  have freed: "list_all (\<lambda>it. Free (fst it) \<in> set (concat (map free_undo_data (redo_list self))))
                 (redo_list self)"
    unfolding list_all_iff using g_list_free_full_releases(1) by blast
  have released: "list_all (\<lambda>it. case free_data (snd it) of
                      Some f \<Rightarrow> Call_free_data f (data (snd it))
                                  \<in> set (concat (map free_undo_data (redo_list self)))
                    | None \<Rightarrow> True) (redo_list self)"
    unfolding list_all_iff
  proof
    fix it assume "it \<in> set (redo_list self)"
    from g_list_free_full_releases(2) [OF this]
    show "case free_data (snd it) of
            Some f \<Rightarrow> Call_free_data f (data (snd it))
                        \<in> set (concat (map free_undo_data (redo_list self)))
          | None \<Rightarrow> True"
      by (cases "free_data (snd it)") simp_all
  qed
  show ?thesis
    unfolding Let_def rec snd_conv using freed released by (simp add: redo)
qed

theorem record_invalidates_redo_witness:
  "\<not> disable_next (dt_undo_init\<lparr>redo_list := [(9, (plain_item 1 (sec 0) 7)\<lparr>free_data := Some 8\<rparr>)]\<rparr>)
   \<and> \<not> locked (dt_undo_init\<lparr>redo_list := [(9, (plain_item 1 (sec 0) 7)\<lparr>free_data := Some 8\<rparr>)]\<rparr>)
   \<and> undo_record (dt_undo_init\<lparr>redo_list := [(9, (plain_item 1 (sec 0) 7)\<lparr>free_data := Some 8\<rparr>)]\<rparr>)
        2 (sec 1) 0 1 5 False (Some 7) None
      = (dt_undo_init\<lparr>undo_list := [(2, (plain_item 1 (sec 1) 7)\<lparr>data := 5\<rparr>)]\<rparr>,
         [Call_free_data 8 0, Free 9])
   \<and> undo_do_undo_redo (dt_undo_init\<lparr>undo_list := [(2, (plain_item 1 (sec 1) 7)\<lparr>data := 5\<rparr>)]\<rparr>)
        1 DT_ACTION_REDO
      = Inr (dt_undo_init\<lparr>undo_list := [(2, (plain_item 1 (sec 1) 7)\<lparr>data := 5\<rparr>)]\<rparr>,
             [Collection_update_query])"
  using record_invalidates_redo
    [of "dt_undo_init\<lparr>redo_list := [(9, (plain_item 1 (sec 0) 7)\<lparr>free_data := Some 8\<rparr>)]\<rparr>"
        0 1 5 "sec 1" False "Some 7" None 2 1]
  by (simp add: dt_undo_init_def plain_item_def free_undo_data_def Let_def)

text \<open>
  C8. A call of \<open>_undo_record\<close> (or of \<open>dt_undo_record\<close>) made while \<open>locked\<close> is set, as
  from inside a callback of a replay, with the one-shot flag clear, is dropped: the
  engine state is the same afterwards (both lists, the flags, the group state), no item
  is allocated and no destructor is called.
\<close>

theorem record_while_locked_is_dropped:
  assumes "locked self" and "\<not> disable_next self"
  shows "undo_record self p now ud ty d grp cb fd = (self, [])
         \<and> dt_undo_record self p now ud ty d cb fd = (self, [])"
  using assms by (simp add: undo_record_def dt_undo_record_def)

theorem record_while_locked_is_dropped_witness:
  "locked (dt_undo_init\<lparr>locked := True\<rparr>) \<and> \<not> disable_next (dt_undo_init\<lparr>locked := True\<rparr>)
   \<and> dt_undo_record (dt_undo_init\<lparr>locked := True\<rparr>) 1 (sec 0) 0 1 5 (Some 7) (Some 8)
       = (dt_undo_init\<lparr>locked := True\<rparr>, [])"
  using record_while_locked_is_dropped [of "dt_undo_init\<lparr>locked := True\<rparr>" 1 "sec 0" 0 1 5 False "Some 7" "Some 8"]
  by (simp add: dt_undo_init_def)

text \<open>
  C10. \<open>dt_undo_clear\<close>, with any mask, resets the one-shot flag that
  \<open>dt_undo_disable_next\<close> has set: the record call that follows stores its item (the only
  one of the undo list now) and calls no destructor.
\<close>

theorem clear_resets_disable_next:
  "disable_next (dt_undo_disable_next self)
   \<and> \<not> disable_next (fst (dt_undo_clear (dt_undo_disable_next self) flt))
   \<and> dt_undo_record (fst (dt_undo_clear (dt_undo_disable_next self) flt)) p now ud ty d cb fd
       = ((fst (dt_undo_clear (dt_undo_disable_next self) flt))
            \<lparr>undo_list := [(p, \<lparr>user_data = ud, type = ty, data = d, ts = now,
                               is_group = False, undo = cb, free_data = fd\<rparr>)]\<rparr>,
          [])"
  by (simp add: dt_undo_disable_next_def dt_undo_clear_def dt_undo_record_def undo_record_def
      Let_def split_beta g_list_free_full_def)

theorem clear_resets_disable_next_witness:
  "dt_undo_record (fst (dt_undo_clear (dt_undo_disable_next dt_undo_init) 1)) 1 (sec 0) 0 1 5
       (Some 7) (Some 8)
       = (dt_undo_init
            \<lparr>undo_list := [(1, \<lparr>user_data = 0, type = 1, data = 5, ts = sec 0,
                               is_group = False, undo = Some 7, free_data = Some 8\<rparr>)]\<rparr>,
          [])"
  using clear_resets_disable_next [of dt_undo_init 1 1 "sec 0" 0 1 5 "Some 7" "Some 8"]
  by (simp add: dt_undo_init_def dt_undo_disable_next_def dt_undo_clear_def undo_clear_list_def Let_def)

subsection \<open>Groups\<close>

text \<open>
  C9. \<open>dt_undo_end_group\<close> with a nesting depth that is not positive fails its
  assertion. With a positive depth it takes one off the depth; when the depth was more
  than one nothing else changes; when the depth was one (it reaches zero) it calls
  \<open>_undo_record\<close> once for a sentinel of the open group's kind and resets the group to
  \<open>DT_UNDO_NONE\<close>, and that call stores the sentinel at the front of the undo list
  unless the one-shot flag or a replay in progress suppresses it.
\<close>

theorem end_group_depth:
  "(group_indent self \<le> 0 \<longrightarrow> dt_undo_end_group self p now = Inl Assertion_failed)
   \<and> (1 < group_indent self \<longrightarrow>
        dt_undo_end_group self p now
          = Inr (self\<lparr>group_indent := group_indent self - 1\<rparr>, []))
   \<and> (group_indent self = 1 \<longrightarrow>
        dt_undo_end_group self p now
          = Inr ((fst (undo_record (self\<lparr>group_indent := 0\<rparr>) p now 0 (group self) 0 True None None))
                    \<lparr>group := DT_UNDO_NONE\<rparr>,
                 snd (undo_record (self\<lparr>group_indent := 0\<rparr>) p now 0 (group self) 0 True None None)))
   \<and> (group_indent self = 1 \<and> \<not> disable_next self \<and> \<not> locked self \<longrightarrow>
        dt_undo_end_group self p now
          = Inr (self\<lparr>undo_list := (p, sentinel (group self) now) # undo_list self,
                      redo_list := [], group := DT_UNDO_NONE, group_indent := 0\<rparr>,
                 g_list_free_full (redo_list self)))"
  by (auto simp: dt_undo_end_group_def undo_record_def Let_def split_beta sentinel_def)

theorem end_group_depth_witness:
  "dt_undo_end_group dt_undo_init 1 (sec 0) = Inl Assertion_failed
   \<and> dt_undo_end_group (dt_undo_init\<lparr>group := 4, group_indent := 2\<rparr>) 1 (sec 0)
       = Inr (dt_undo_init\<lparr>group := 4, group_indent := 1\<rparr>, [])
   \<and> dt_undo_end_group (dt_undo_init\<lparr>group := 4, group_indent := 1\<rparr>) 1 (sec 0)
       = Inr (dt_undo_init\<lparr>undo_list := [(1, sentinel 4 (sec 0))]\<rparr>, [])"
  using end_group_depth [of dt_undo_init 1 "sec 0"]
    end_group_depth [of "dt_undo_init\<lparr>group := 4, group_indent := 2\<rparr>" 1 "sec 0"]
    end_group_depth [of "dt_undo_init\<lparr>group := 4, group_indent := 1\<rparr>" 1 "sec 0"]
  by (simp add: dt_undo_init_def g_list_free_full_def DT_UNDO_NONE_def undo_record_def
      sentinel_def)

text \<open>
  C3. With no group open, the one-shot flag clear, no replay in progress and a kind
  \<open>K\<close> that is not the empty mask: after \<open>dt_undo_start_group K\<close>, three record calls of
  kind \<open>K\<close> and \<open>dt_undo_end_group\<close>, the five items (both sentinels and the three
  records) are at the front of the undo list. One \<open>dt_undo_do_undo K\<close> calls the three
  callbacks once each, the last recorded first, with \<open>DT_ACTION_UNDO\<close>, and moves the
  five items to the redo list; one \<open>dt_undo_do_redo K\<close> after it calls the three
  callbacks in recording order with \<open>DT_ACTION_REDO\<close> and moves the five items back.
\<close>

theorem group_replayed_as_one_unit:
  assumes "group self = DT_UNDO_NONE" and "\<not> disable_next self" and "\<not> locked self"
    and "K \<noteq> 0"
  shows "(let S = (p0, sentinel K t0);
              R1 = (p1, \<lparr>user_data = u1, type = K, data = d1, ts = t1, is_group = False,
                          undo = Some f1, free_data = fd1\<rparr>);
              R2 = (p2, \<lparr>user_data = u2, type = K, data = d2, ts = t2, is_group = False,
                          undo = Some f2, free_data = fd2\<rparr>);
              R3 = (p3, \<lparr>user_data = u3, type = K, data = d3, ts = t3, is_group = False,
                          undo = Some f3, free_data = fd3\<rparr>);
              E = (p4, sentinel K t4);
              recorded = self\<lparr>undo_list := [E, R3, R2, R1, S] @ undo_list self, redo_list := [],
                              group_indent := 0\<rparr>;
              undone = recorded\<lparr>undo_list := undo_list self, redo_list := [S, R1, R2, R3, E]\<rparr>
          in api_run self
               [Start_group p0 t0 K,
                Record p1 t1 u1 K d1 (Some f1) fd1,
                Record p2 t2 u2 K d2 (Some f2) fd2,
                Record p3 t3 u3 K d3 (Some f3) fd3,
                End_group p4 t4]
               = Inr (recorded, g_list_free_full (redo_list self))
             \<and> dt_undo_do_undo recorded K
               = Inr (undone,
                      [Call_undo f3 u3 K d3 DT_ACTION_UNDO,
                       Call_undo f2 u2 K d2 DT_ACTION_UNDO,
                       Call_undo f1 u1 K d1 DT_ACTION_UNDO,
                       Collection_update_query])
             \<and> dt_undo_do_redo undone K
               = Inr (recorded,
                      [Call_undo f1 u1 K d1 DT_ACTION_REDO,
                       Call_undo f2 u2 K d2 DT_ACTION_REDO,
                       Call_undo f3 u3 K d3 DT_ACTION_REDO,
                       Collection_update_query]))"
proof -
  have run: "api_run self
               [Start_group p0 t0 K,
                Record p1 t1 u1 K d1 (Some f1) fd1,
                Record p2 t2 u2 K d2 (Some f2) fd2,
                Record p3 t3 u3 K d3 (Some f3) fd3,
                End_group p4 t4]
     = Inr (self\<lparr>undo_list := [(p4, sentinel K t4),
               (p3, \<lparr>user_data = u3, type = K, data = d3, ts = t3, is_group = False,
                          undo = Some f3, free_data = fd3\<rparr>),
               (p2, \<lparr>user_data = u2, type = K, data = d2, ts = t2, is_group = False,
                          undo = Some f2, free_data = fd2\<rparr>),
               (p1, \<lparr>user_data = u1, type = K, data = d1, ts = t1, is_group = False,
                          undo = Some f1, free_data = fd1\<rparr>),
               (p0, sentinel K t0)] @ undo_list self, redo_list := [],
                              group_indent := 0\<rparr>, g_list_free_full (redo_list self))"
    using assms
    by (simp add: dt_undo_start_group_def dt_undo_end_group_def dt_undo_record_def
        undo_record_def Let_def sentinel_def g_list_free_full_def)
  show ?thesis
    unfolding Let_def run
    using assms
    by (simp add: dt_undo_do_undo_def dt_undo_do_redo_def undo_do_undo_redo_def Let_def
        matches_def sentinel_def call_undo_def group_loop_closed)
qed

theorem group_replayed_as_one_unit_witness:
  "api_run dt_undo_init
     [Start_group 1 (sec 0) 1,
      Record 2 (sec 1) 0 1 11 (Some 7) None,
      Record 3 (sec 2) 0 1 12 (Some 8) None,
      Record 4 (sec 3) 0 1 13 (Some 9) None,
      End_group 5 (sec 4)]
     = Inr (dt_undo_init\<lparr>undo_list :=
              [(5, sentinel 1 (sec 4)), (4, (plain_item 1 (sec 3) 9)\<lparr>data := 13\<rparr>),
               (3, (plain_item 1 (sec 2) 8)\<lparr>data := 12\<rparr>), (2, (plain_item 1 (sec 1) 7)\<lparr>data := 11\<rparr>),
               (1, sentinel 1 (sec 0))]\<rparr>, [])
   \<and> dt_undo_do_undo (dt_undo_init\<lparr>undo_list :=
              [(5, sentinel 1 (sec 4)), (4, (plain_item 1 (sec 3) 9)\<lparr>data := 13\<rparr>),
               (3, (plain_item 1 (sec 2) 8)\<lparr>data := 12\<rparr>), (2, (plain_item 1 (sec 1) 7)\<lparr>data := 11\<rparr>),
               (1, sentinel 1 (sec 0))]\<rparr>) 1
     = Inr (dt_undo_init\<lparr>redo_list :=
              [(1, sentinel 1 (sec 0)), (2, (plain_item 1 (sec 1) 7)\<lparr>data := 11\<rparr>),
               (3, (plain_item 1 (sec 2) 8)\<lparr>data := 12\<rparr>), (4, (plain_item 1 (sec 3) 9)\<lparr>data := 13\<rparr>),
               (5, sentinel 1 (sec 4))]\<rparr>,
            [Call_undo 9 0 1 13 DT_ACTION_UNDO, Call_undo 8 0 1 12 DT_ACTION_UNDO,
             Call_undo 7 0 1 11 DT_ACTION_UNDO, Collection_update_query])
   \<and> dt_undo_do_redo (dt_undo_init\<lparr>redo_list :=
              [(1, sentinel 1 (sec 0)), (2, (plain_item 1 (sec 1) 7)\<lparr>data := 11\<rparr>),
               (3, (plain_item 1 (sec 2) 8)\<lparr>data := 12\<rparr>), (4, (plain_item 1 (sec 3) 9)\<lparr>data := 13\<rparr>),
               (5, sentinel 1 (sec 4))]\<rparr>) 1
     = Inr (dt_undo_init\<lparr>undo_list :=
              [(5, sentinel 1 (sec 4)), (4, (plain_item 1 (sec 3) 9)\<lparr>data := 13\<rparr>),
               (3, (plain_item 1 (sec 2) 8)\<lparr>data := 12\<rparr>), (2, (plain_item 1 (sec 1) 7)\<lparr>data := 11\<rparr>),
               (1, sentinel 1 (sec 0))]\<rparr>,
            [Call_undo 7 0 1 11 DT_ACTION_REDO, Call_undo 8 0 1 12 DT_ACTION_REDO,
             Call_undo 9 0 1 13 DT_ACTION_REDO, Collection_update_query])"
  using group_replayed_as_one_unit
    [of dt_undo_init 1 1 "sec 0" 2 0 11 "sec 1" 7 None 3 0 12 "sec 2" 8 None 4 0 13 "sec 3" 9 None
        5 "sec 4"]
  by (simp add: dt_undo_init_def plain_item_def g_list_free_full_def Let_def)

subsection \<open>Replay of a single item\<close>

text \<open>
  C6. When the undo list holds one plain item and the redo list is empty, an undo with
  a mask that matches the item's kind (the kind itself, when it is not empty) followed
  by a redo with the same mask calls the item's callback twice, with \<open>DT_ACTION_UNDO\<close>
  and then with \<open>DT_ACTION_REDO\<close>; the item is in the redo list in between, and back
  in the undo list, with the redo list empty, at the end.
\<close>

theorem single_entry_round_trip:
  assumes "undo_list self = [(p, e)]" and "redo_list self = []"
    and "\<not> is_group e" and "undo e = Some f" and "matches flt (p, e)"
  shows "dt_undo_do_undo self flt
           = Inr (self\<lparr>undo_list := [], redo_list := [(p, e)], locked := False\<rparr>,
                  [Call_undo f (user_data e) (type e) (data e) DT_ACTION_UNDO,
                   Collection_update_query])
         \<and> dt_undo_do_redo (self\<lparr>undo_list := [], redo_list := [(p, e)], locked := False\<rparr>) flt
           = Inr (self\<lparr>locked := False\<rparr>,
                  [Call_undo f (user_data e) (type e) (data e) DT_ACTION_REDO,
                   Collection_update_query])"
  using assms
  by (simp add: dt_undo_do_undo_def dt_undo_do_redo_def undo_do_undo_redo_def Let_def
      plain_loop.simps call_undo_def)

theorem single_entry_round_trip_witness:
  "matches 1 (1, plain_item 1 (sec 0) 7)
   \<and> dt_undo_do_undo (dt_undo_init\<lparr>undo_list := [(1, plain_item 1 (sec 0) 7)]\<rparr>) 1
       = Inr (dt_undo_init\<lparr>redo_list := [(1, plain_item 1 (sec 0) 7)]\<rparr>,
              [Call_undo 7 0 1 0 DT_ACTION_UNDO, Collection_update_query])
   \<and> dt_undo_do_redo (dt_undo_init\<lparr>redo_list := [(1, plain_item 1 (sec 0) 7)]\<rparr>) 1
       = Inr (dt_undo_init\<lparr>undo_list := [(1, plain_item 1 (sec 0) 7)]\<rparr>,
              [Call_undo 7 0 1 0 DT_ACTION_REDO, Collection_update_query])"
  using single_entry_round_trip
    [of "dt_undo_init\<lparr>undo_list := [(1, plain_item 1 (sec 0) 7)]\<rparr>" 1 "plain_item 1 (sec 0) 7" 7 1]
  by (simp add: dt_undo_init_def plain_item_def matches_def)

subsection \<open>The batch of a replay\<close>

lemma source_after_replay [simp]: "source action (after_replay action self src dst) = src"
  by (cases action) (simp_all add: source_def after_replay_def)

lemma dest_after_replay [simp]: "dest action (after_replay action self src dst) = dst"
  by (cases action) (simp_all add: dest_def after_replay_def)

lemma after_replay_twice [simp]:
  "after_replay action (after_replay action self src dst) src' dst'
     = after_replay action self src' dst'"
  by (cases action) (simp_all add: after_replay_def)

lemma batch_front:
  "matches flt it \<Longrightarrow>
   batch flt (it # rest) =
     it # (if is_group (snd it) then group_batch rest
           else coalesce_run flt (ts (snd it)) False rest)"
  by (simp add: batch_def)

lemma remaining_front:
  "matches flt it \<Longrightarrow>
   remaining flt (it # rest) = drop (length (batch flt (it # rest))) (it # rest)"
  by (simp add: remaining_def)

lemma coalesce_run_matches: "list_all (matches flt) (coalesce_run flt t0 ig l)"
  by (induction l arbitrary: ig) auto

lemma batch_Nil: "dropWhile (\<lambda>it. \<not> matches flt it) xs = [] \<Longrightarrow> batch flt xs = []"
  unfolding batch_def by (simp only: list.simps)

lemma batch_Cons:
  "dropWhile (\<lambda>it. \<not> matches flt it) xs = it # rest \<Longrightarrow>
   batch flt xs = (if is_group (snd it) then it # group_batch rest
                   else it # coalesce_run flt (ts (snd it)) False rest)"
  unfolding batch_def by (simp only: list.simps)

lemma batch_head_matches: "batch flt xs \<noteq> [] \<Longrightarrow> matches flt (hd (batch flt xs))"
proof (cases "dropWhile (\<lambda>it. \<not> matches flt it) xs")
  case Nil
  assume "batch flt xs \<noteq> []"
  with batch_Nil [OF Nil] show ?thesis by simp
next
  case (Cons it rest)
  then have "matches flt it"
    using hd_dropWhile [of "\<lambda>it. \<not> matches flt it" xs] by simp
  then show ?thesis by (simp add: batch_Cons [OF Cons])
qed

lemma batch_plain_matches:
  "batch flt xs \<noteq> [] \<Longrightarrow> \<not> is_group (snd (hd (batch flt xs))) \<Longrightarrow>
   list_all (matches flt) (batch flt xs)"
proof (cases "dropWhile (\<lambda>it. \<not> matches flt it) xs")
  case Nil
  assume "batch flt xs \<noteq> []"
  with batch_Nil [OF Nil] show ?thesis by simp
next
  case (Cons it rest)
  assume plain: "\<not> is_group (snd (hd (batch flt xs)))"
  have m: "matches flt it"
    using Cons hd_dropWhile [of "\<lambda>it. \<not> matches flt it" xs] by simp
  from plain have "\<not> is_group (snd it)"
    by (simp add: batch_Cons [OF Cons] split: if_splits)
  then show ?thesis using m by (simp add: batch_Cons [OF Cons] coalesce_run_matches)
qed

lemma batch_no_match: "\<not> list_ex (matches flt) xs \<Longrightarrow> batch flt xs = []"
proof -
  assume "\<not> list_ex (matches flt) xs"
  then have "dropWhile (\<lambda>it. \<not> matches flt it) xs = []"
    by (simp add: list_ex_iff)
  then show ?thesis by (rule batch_Nil)
qed

subsection \<open>The time test\<close>

text \<open>When the difference of two finite doubles needs no rounding (it fits in 53 bits
  at the smaller of the two exponents), the test of the code is the test on the exact
  difference.\<close>

lemma round_binary64_exact:
  assumes "\<bar>n\<bar> < 2 ^ 53" and "- 1074 \<le> e" and "e \<le> 971"
  shows "round_binary64 n e = Finite n e"
proof -
  have len: "bitlen \<bar>n\<bar> \<le> 53"
  proof (cases "n = 0")
    case True
    then show ?thesis by simp
  next
    case False
    then have "0 < \<bar>n\<bar>" by simp
    from bitlen_bounds [OF this] assms(1) have "(2::int) ^ nat (bitlen \<bar>n\<bar> - 1) < 2 ^ 53"
      by linarith
    then have "nat (bitlen \<bar>n\<bar> - 1) < 53"
      by (intro power_less_imp_less_exp [of "2::int"]) simp_all
    then show ?thesis by linarith
  qed
  then have s: "max 0 (max (bitlen \<bar>n\<bar> - 53) (- 1074 - e)) = 0"
    using assms(2) by simp
  have "\<not> 1024 < bitlen \<bar>n\<bar> + e" using len assms(3) by linarith
  then show ?thesis
    unfolding round_binary64_def Let_def s by (simp add: mult.commute abs_mult_sgn)
qed

lemma dval_aligned:
  "dval (m1 * 2 ^ nat (e1 - min e1 e2) - m2 * 2 ^ nat (e2 - min e1 e2)) (min e1 e2)
     = dval m1 e1 - dval m2 e2"
proof -
  have shift: "of_int (m * 2 ^ nat (e - e0)) * (2::real) powi e0 = of_int m * 2 powi e"
    if "e0 \<le> e" for m e e0
  proof -
    have "(2::real) powi e = 2 powi (int (nat (e - e0)) + e0)" using that by simp
    also have "\<dots> = 2 powi int (nat (e - e0)) * 2 powi e0"
      by (rule power_int_add) simp
    also have "\<dots> = 2 ^ nat (e - e0) * 2 powi e0"
      by (simp only: power_int_of_nat)
    finally show ?thesis by simp
  qed
  have "of_int (m1 * 2 ^ nat (e1 - min e1 e2)) * (2::real) powi min e1 e2 = of_int m1 * 2 powi e1"
    by (rule shift) simp
  moreover
  have "of_int (m2 * 2 ^ nat (e2 - min e1 e2)) * (2::real) powi min e1 e2 = of_int m2 * 2 powi e2"
    by (rule shift) simp
  ultimately show ?thesis
    unfolding dval_def of_int_diff left_diff_distrib by (simp only:)
qed

lemma time_test_exact:
  assumes "\<bar>m1 * 2 ^ nat (e1 - min e1 e2) - m2 * 2 ^ nat (e2 - min e1 e2)\<bar> < 2 ^ 53"
    and "- 1074 \<le> min e1 e2" and "min e1 e2 \<le> 971"
  shows "double_less (fabs (double_sub (Finite m1 e1) (Finite m2 e2))) MAX_TIME_PERIOD
         = (\<bar>dval m1 e1 - dval m2 e2\<bar> < 1 / 2)"
proof -
  let ?n = "m1 * 2 ^ nat (e1 - min e1 e2) - m2 * 2 ^ nat (e2 - min e1 e2)"
  have "double_sub (Finite m1 e1) (Finite m2 e2) = Finite ?n (min e1 e2)"
    using round_binary64_exact [OF assms] by (simp add: double_sub_def Let_def)
  moreover have "dval \<bar>?n\<bar> (min e1 e2) = \<bar>dval ?n (min e1 e2)\<bar>"
    by (simp add: dval_def abs_mult)
  then have "dval \<bar>?n\<bar> (min e1 e2) = \<bar>dval m1 e1 - dval m2 e2\<bar>"
    by (simp only: dval_aligned)
  ultimately show ?thesis
    by (simp add: MAX_TIME_PERIOD_def) (simp add: dval_def)
qed

text \<open>The doubles nearest to 0.1, 0.6, and some sums of quarters.\<close>

lemma double_sub_tenth_six_tenths:
  "double_sub (Finite 7205759403792794 (- 56)) (Finite 5404319552844595 (- 53))
     = Finite (- 9007199254740992) (- 54)"
  by code_simp

lemma double_sub_quarters:
  "double_sub (Finite 2 (- 2)) (Finite 3 (- 2)) = Finite (- 1) (- 2)"
  "double_sub (Finite 1 (- 2)) (Finite 3 (- 2)) = Finite (- 2) (- 2)"
  "double_sub (Finite 0 0) (Finite 3 (- 2)) = Finite (- 3) (- 2)"
  by code_simp+

text \<open>
  C4, as amended. Two plain items of the same kind at the front of the source list, a
  mask that matches them, every plain item of the list with its callback. When the
  difference of the two time stamps as the code computes it (the double precision
  subtraction, rounded to the nearest double, then \<open>fabs\<close>) is less than
  \<open>MAX_TIME_PERIOD\<close>, one half, one call of \<open>_undo_do_undo_redo\<close> replays both items, the
  front one first, and goes on through the rest of the list with the time stamp of the
  front item as the reference of every comparison. When the computed difference is one
  half or more, the call replays the front item only, and a second call replays the other
  one (and what coalesces with it).
\<close>

theorem coalescing_window:
  assumes "source action self = e1 # e2 # rest"
    and "\<not> is_group (snd e1)" and "\<not> is_group (snd e2)"
    and "type (snd e2) = type (snd e1)" and "matches flt e1"
    and "valid_callbacks (source action self)"
  shows "(if double_less (fabs (double_sub (ts (snd e2)) (ts (snd e1)))) MAX_TIME_PERIOD
          then undo_do_undo_redo self flt action
                 = Inr (after_replay action self
                          (drop (length (coalesce_run flt (ts (snd e1)) False rest)) rest)
                          (rev (coalesce_run flt (ts (snd e1)) False rest)
                             @ e2 # e1 # dest action self),
                        call_undo action (the (undo (snd e1))) e1
                          # call_undo action (the (undo (snd e2))) e2
                          # replay_events action (coalesce_run flt (ts (snd e1)) False rest)
                          @ [Collection_update_query])
          else undo_do_undo_redo self flt action
                 = Inr (after_replay action self (e2 # rest) (e1 # dest action self),
                        [call_undo action (the (undo (snd e1))) e1, Collection_update_query])
               \<and> undo_do_undo_redo
                   (after_replay action self (e2 # rest) (e1 # dest action self)) flt action
                 = Inr (after_replay action self
                          (drop (length (coalesce_run flt (ts (snd e2)) False rest)) rest)
                          (rev (coalesce_run flt (ts (snd e2)) False rest)
                             @ e2 # e1 # dest action self),
                        call_undo action (the (undo (snd e2))) e2
                          # replay_events action (coalesce_run flt (ts (snd e2)) False rest)
                          @ [Collection_update_query]))"
proof -
  have m2: "matches flt e2" using assms(4,5) by (simp add: matches_def)
  note first = undo_do_undo_redo_front [OF assms(1) assms(5) assms(6)]
  have v2: "valid_callbacks (source action
              (after_replay action self (e2 # rest) (e1 # dest action self)))"
    using assms(1,6) by (simp add: valid_callbacks_def)
  have second: "undo_do_undo_redo
                   (after_replay action self (e2 # rest) (e1 # dest action self)) flt action
      = Inr (after_replay action self (remaining flt (e2 # rest))
               (rev (batch flt (e2 # rest)) @ e1 # dest action self),
             replay_events action (batch flt (e2 # rest)) @ [Collection_update_query])"
    using undo_do_undo_redo_front [OF _ m2 v2, of rest] by simp
  show ?thesis
  proof (cases "double_less (fabs (double_sub (ts (snd e2)) (ts (snd e1)))) MAX_TIME_PERIOD")
    case True
    then show ?thesis
      using first assms(1,2,3,5) m2
      by (simp add: batch_front remaining_front)
  next
    case False
    then show ?thesis
      using first second assms(1,2,3,5) m2
      by (simp add: batch_front remaining_front)
  qed
qed

theorem coalescing_window_witness:
  "undo_do_undo_redo
     (dt_undo_init\<lparr>undo_list := [(3, plain_item 1 (Finite 3 (- 2)) 9),
                                   (2, plain_item 1 (Finite 2 (- 2)) 8),
                                   (1, plain_item 1 (Finite 1 (- 2)) 7)]\<rparr>) 1 DT_ACTION_UNDO
     = Inr (dt_undo_init\<lparr>undo_list := [(1, plain_item 1 (Finite 1 (- 2)) 7)],
                          redo_list := [(2, plain_item 1 (Finite 2 (- 2)) 8),
                                        (3, plain_item 1 (Finite 3 (- 2)) 9)]\<rparr>,
            [Call_undo 9 0 1 0 DT_ACTION_UNDO, Call_undo 8 0 1 0 DT_ACTION_UNDO,
             Collection_update_query])
   \<and> undo_do_undo_redo
       (dt_undo_init\<lparr>undo_list := [(2, plain_item 1 (Finite 3 (- 2)) 8),
                                     (1, plain_item 1 (Finite 0 0) 7)]\<rparr>)
       1 DT_ACTION_UNDO
     = Inr (dt_undo_init\<lparr>undo_list := [(1, plain_item 1 (Finite 0 0) 7)],
                          redo_list := [(2, plain_item 1 (Finite 3 (- 2)) 8)]\<rparr>,
            [Call_undo 8 0 1 0 DT_ACTION_UNDO, Collection_update_query])"
  using coalescing_window
    [of DT_ACTION_UNDO
        "dt_undo_init\<lparr>undo_list := [(3, plain_item 1 (Finite 3 (- 2)) 9),
                                      (2, plain_item 1 (Finite 2 (- 2)) 8),
                                      (1, plain_item 1 (Finite 1 (- 2)) 7)]\<rparr>"
        "(3, plain_item 1 (Finite 3 (- 2)) 9)" "(2, plain_item 1 (Finite 2 (- 2)) 8)"
        "[(1, plain_item 1 (Finite 1 (- 2)) 7)]" 1]
    coalescing_window
    [of DT_ACTION_UNDO
        "dt_undo_init\<lparr>undo_list := [(2, plain_item 1 (Finite 3 (- 2)) 8),
                                      (1, plain_item 1 (Finite 0 0) 7)]\<rparr>"
        "(2, plain_item 1 (Finite 3 (- 2)) 8)" "(1, plain_item 1 (Finite 0 0) 7)" "[]" 1]
  by (simp add: dt_undo_init_def plain_item_def source_def dest_def after_replay_def
      valid_callbacks_def matches_def MAX_TIME_PERIOD_def call_undo_def double_sub_quarters
      dval_def)

text \<open>
  C4 as stated fails at the boundary. Two items of kind 1 are recorded, the first
  stamped with the double nearest to 0.1, the second with the double nearest to 0.6, and
  an undo with the mask 1 follows. The exact difference
  of the two doubles is \<open>1 / 2 - 2 ^ -55\<close>, less than one half; the double precision
  subtraction rounds it to one half, the test \<open>< MAX_TIME_PERIOD\<close> fails, and one call
  replays the front item only.
\<close>

theorem rounded_difference_stops_the_run:
  "is_binary64 (Finite 5404319552844595 (- 53))
   \<and> is_binary64 (Finite 7205759403792794 (- 56))
   \<and> \<bar>dval 7205759403792794 (- 56) - dval 5404319552844595 (- 53)\<bar> < 1 / 2
   \<and> api_run dt_undo_init
       [Record 1 (Finite 7205759403792794 (- 56)) 0 1 0 (Some 7) None,
        Record 2 (Finite 5404319552844595 (- 53)) 0 1 0 (Some 8) None,
        Do_undo 1]
     = Inr (dt_undo_init\<lparr>undo_list := [(1, plain_item 1 (Finite 7205759403792794 (- 56)) 7)],
                          redo_list := [(2, plain_item 1 (Finite 5404319552844595 (- 53)) 8)]\<rparr>,
            [Call_undo 8 0 1 0 DT_ACTION_UNDO, Collection_update_query])"
  by (simp add: is_binary64_def dval_def dt_undo_init_def plain_item_def dt_undo_record_def
      undo_record_def g_list_free_full_def dt_undo_do_undo_def undo_do_undo_redo_def
      plain_loop.simps matches_def MAX_TIME_PERIOD_def call_undo_def
      double_sub_tenth_six_tenths Let_def)

text \<open>
  C2, as amended. The items of the source list have distinct addresses and every plain
  item has its callback. A replay splits the source list into the items in front of the
  first one that matches the mask, the batch, and the items behind the batch; it leaves
  the front and the rest in the source list, in their order, puts the batch on the other
  list, and calls the callbacks of the plain items of the batch, and no other. No item of
  the front matches; when no item matches, the batch is empty; the head of a batch
  matches; and when the head is a plain item every item of the batch matches, so that
  the items that do not match stay in the source list, in their order, and none of
  their callbacks is called. (When the head is a sentinel, the batch runs to the next
  sentinel whatever the kinds of the items in between.)
\<close>

theorem replay_starts_at_first_match:
  assumes "distinct (map fst (source action self))"
    and "valid_callbacks (source action self)"
  shows "(let src = source action self;
              front = takeWhile (\<lambda>it. \<not> matches flt it) src;
              moved = batch flt src;
              behind = drop (length moved) (dropWhile (\<lambda>it. \<not> matches flt it) src)
          in src = front @ moved @ behind
             \<and> undo_do_undo_redo self flt action
                 = Inr (after_replay action self (front @ behind) (rev moved @ dest action self),
                        replay_events action moved @ [Collection_update_query])
             \<and> list_all (\<lambda>it. \<not> matches flt it) front
             \<and> (\<not> list_ex (matches flt) src \<longrightarrow> moved = [])
             \<and> (moved \<noteq> [] \<longrightarrow> matches flt (hd moved))
             \<and> (moved \<noteq> [] \<and> \<not> is_group (snd (hd moved)) \<longrightarrow>
                  list_all (matches flt) moved
                  \<and> filter (\<lambda>it. \<not> matches flt it) (front @ behind)
                      = filter (\<lambda>it. \<not> matches flt it) src))"
proof -
  define src where "src = source action self"
  define front where "front = takeWhile (\<lambda>it. \<not> matches flt it) src"
  define moved where "moved = batch flt src"
  define behind where "behind = drop (length moved) (dropWhile (\<lambda>it. \<not> matches flt it) src)"
  have split: "src = front @ moved @ behind"
    unfolding front_def moved_def behind_def by (rule source_split)
  have run: "undo_do_undo_redo self flt action
      = Inr (after_replay action self (front @ behind) (rev moved @ dest action self),
             replay_events action moved @ [Collection_update_query])"
    using undo_do_undo_redo_batch [OF assms, of flt]
    by (simp add: remaining_def src_def front_def moved_def behind_def)
  have front: "list_all (\<lambda>it. \<not> matches flt it) front"
    unfolding front_def list_all_iff by (auto dest: set_takeWhileD)
  have none: "\<not> list_ex (matches flt) src \<longrightarrow> moved = []"
    unfolding moved_def by (simp add: batch_no_match)
  have head: "moved \<noteq> [] \<longrightarrow> matches flt (hd moved)"
    unfolding moved_def by (simp add: batch_head_matches)
  have plain: "list_all (matches flt) moved
               \<and> filter (\<lambda>it. \<not> matches flt it) (front @ behind)
                   = filter (\<lambda>it. \<not> matches flt it) src"
    if "moved \<noteq> []" and "\<not> is_group (snd (hd moved))"
  proof -
    have all: "list_all (matches flt) moved"
      using that unfolding moved_def by (rule batch_plain_matches)
    then have "filter (\<lambda>it. \<not> matches flt it) moved = []"
      by (simp add: list_all_iff)
    moreover have "filter (\<lambda>it. \<not> matches flt it) src
        = filter (\<lambda>it. \<not> matches flt it) (front @ moved @ behind)"
      using split by simp
    ultimately show ?thesis using all by simp
  qed
  show ?thesis
    unfolding Let_def src_def [symmetric] front_def [symmetric] moved_def [symmetric]
      behind_def [symmetric]
    using split run front none head plain by blast
qed

theorem replay_starts_at_first_match_witness:
  "undo_do_undo_redo
     (dt_undo_init\<lparr>undo_list := [(4, plain_item 2 (sec 3) 9), (3, plain_item 1 (Finite 17 (- 3)) 8),
                                   (2, plain_item 2 (sec 2) 6), (1, plain_item 1 (sec 2) 7)]\<rparr>)
     1 DT_ACTION_UNDO
   = Inr (dt_undo_init\<lparr>undo_list := [(4, plain_item 2 (sec 3) 9), (2, plain_item 2 (sec 2) 6),
                                       (1, plain_item 1 (sec 2) 7)],
                        redo_list := [(3, plain_item 1 (Finite 17 (- 3)) 8)]\<rparr>,
          [Call_undo 8 0 1 0 DT_ACTION_UNDO, Collection_update_query])"
  using replay_starts_at_first_match
    [of DT_ACTION_UNDO
        "dt_undo_init\<lparr>undo_list := [(4, plain_item 2 (sec 3) 9), (3, plain_item 1 (Finite 17 (- 3)) 8),
                                      (2, plain_item 2 (sec 2) 6), (1, plain_item 1 (sec 2) 7)]\<rparr>" 1]
  by (simp add: dt_undo_init_def plain_item_def source_def dest_def after_replay_def
      valid_callbacks_def matches_def MAX_TIME_PERIOD_def call_undo_def batch_def Let_def)

text \<open>
  C2 as stated fails: a group of kind 1 that holds a plain item of kind 2 is undone with
  the mask 1; the item of kind 2 does not match the mask, and yet its callback is called
  and it moves to the redo list with the two sentinels.
\<close>

theorem group_replays_entry_of_other_kind:
  "\<not> matches 1 (2, (plain_item 2 (sec 1) 7)\<lparr>data := 11\<rparr>)
   \<and> api_run dt_undo_init
       [Start_group 1 (sec 0) 1, Record 2 (sec 1) 0 2 11 (Some 7) None, End_group 3 (sec 2), Do_undo 1]
     = Inr (dt_undo_init\<lparr>redo_list :=
              [(1, sentinel 1 (sec 0)), (2, (plain_item 2 (sec 1) 7)\<lparr>data := 11\<rparr>), (3, sentinel 1 (sec 2))]\<rparr>,
            [Call_undo 7 0 2 11 DT_ACTION_UNDO, Collection_update_query])"
  by (simp add: dt_undo_init_def dt_undo_start_group_def dt_undo_end_group_def
      dt_undo_record_def undo_record_def dt_undo_do_undo_def undo_do_undo_redo_def
      DT_UNDO_NONE_def sentinel_def plain_item_def matches_def call_undo_def
      g_list_free_full_def group_loop_closed Let_def)

subsection \<open>Nested groups\<close>

lemma grouping_inv_init: "grouping_inv dt_undo_init"
  by (simp add: grouping_inv_def dt_undo_init_def)

lemma grouping_inv_step:
  assumes "grouping_inv self" and "grouping_call c" and "api_step self c = Inr (self', ev)"
  shows "grouping_inv self'"
proof (cases c)
  case (Record p now ud ty d cb fd)
  with assms show ?thesis
    by (auto simp: grouping_inv_def dt_undo_record_def undo_record_def Let_def)
next
  case (Start_group p now ty)
  with assms show ?thesis
    by (auto simp: grouping_inv_def dt_undo_start_group_def undo_record_def Let_def
        split: if_splits)
next
  case (End_group p now)
  with assms show ?thesis
    by (auto simp: grouping_inv_def dt_undo_end_group_def undo_record_def Let_def
        split: if_splits)
qed (use assms in simp_all)

lemma grouping_inv_run:
  "grouping_inv self \<Longrightarrow> list_all grouping_call calls \<Longrightarrow>
   api_run self calls = Inr (self', ev) \<Longrightarrow> grouping_inv self'"
proof (induction calls arbitrary: self ev)
  case Nil
  then show ?case by simp
next
  case (Cons c calls)
  from Cons.prems(3) obtain self1 ev1 ev2 where
    step: "api_step self c = Inr (self1, ev1)" and
    rest: "api_run self1 calls = Inr (self', ev2)"
    by (auto split: sum.splits)
  from Cons.prems(1,2) step have "grouping_inv self1"
    by (auto intro: grouping_inv_step)
  with Cons.IH rest Cons.prems(2) show ?case by simp
qed

lemma grouping_inv_flat: "grouping_inv self \<Longrightarrow> flat_stacks self"
  by (simp add: grouping_inv_def flat_stacks_def)

text \<open>
  C7, as amended. With no group open, the one-shot flag clear, no replay in progress
  and a kind \<open>K\<close> other than \<open>DT_UNDO_NONE\<close>, the calls start group \<open>K\<close>, start group
  \<open>K\<close>, record, end group, end group put three items on the undo list: one sentinel, the
  recorded item, one sentinel (the inner pair of calls only moves the depth). And in
  every state reached from the initial one by record calls, start-group calls with a kind
  other than \<open>DT_UNDO_NONE\<close> and end-group calls alone, the stacks are flat: each group is
  one pair of sentinels of the same kind around plain items, the open group apart.
\<close>

theorem nested_groups_flatten:
  "(group self = DT_UNDO_NONE \<and> \<not> disable_next self \<and> \<not> locked self \<and> K \<noteq> DT_UNDO_NONE
      \<longrightarrow> api_run self
            [Start_group p0 t0 K, Start_group p1 t1 K, Record p2 t2 ud ty d cb fd,
             End_group p3 t3, End_group p4 t4]
          = Inr (self\<lparr>undo_list :=
                        [(p4, sentinel K t4),
                         (p2, \<lparr>user_data = ud, type = ty, data = d, ts = t2, is_group = False,
                                undo = cb, free_data = fd\<rparr>),
                         (p0, sentinel K t0)] @ undo_list self,
                      redo_list := [], group_indent := 0\<rparr>,
                 g_list_free_full (redo_list self)))
   \<and> (list_all grouping_call calls \<and> api_run dt_undo_init calls = Inr (self', ev)
      \<longrightarrow> flat_stacks self')"
proof (intro conjI impI)
  assume "group self = DT_UNDO_NONE \<and> \<not> disable_next self \<and> \<not> locked self \<and> K \<noteq> DT_UNDO_NONE"
  then show "api_run self
            [Start_group p0 t0 K, Start_group p1 t1 K, Record p2 t2 ud ty d cb fd,
             End_group p3 t3, End_group p4 t4]
          = Inr (self\<lparr>undo_list :=
                        [(p4, sentinel K t4),
                         (p2, \<lparr>user_data = ud, type = ty, data = d, ts = t2, is_group = False,
                                undo = cb, free_data = fd\<rparr>),
                         (p0, sentinel K t0)] @ undo_list self,
                      redo_list := [], group_indent := 0\<rparr>,
                 g_list_free_full (redo_list self))"
    by (simp add: dt_undo_start_group_def dt_undo_end_group_def dt_undo_record_def
        undo_record_def Let_def sentinel_def g_list_free_full_def)
next
  assume "list_all grouping_call calls \<and> api_run dt_undo_init calls = Inr (self', ev)"
  then have "grouping_inv self'"
    using grouping_inv_run [OF grouping_inv_init] by blast
  then show "flat_stacks self'" by (rule grouping_inv_flat)
qed

theorem nested_groups_flatten_witness:
  "api_run dt_undo_init
     [Start_group 1 (sec 0) 1, Start_group 2 (sec 1) 1, Record 3 (sec 2) 0 1 11 (Some 7) None,
      End_group 4 (sec 3), End_group 5 (sec 4)]
     = Inr (dt_undo_init\<lparr>undo_list :=
              [(5, sentinel 1 (sec 4)), (3, (plain_item 1 (sec 2) 7)\<lparr>data := 11\<rparr>), (1, sentinel 1 (sec 0))]\<rparr>,
            [])
   \<and> flat_stacks (dt_undo_init\<lparr>undo_list :=
              [(5, sentinel 1 (sec 4)), (3, (plain_item 1 (sec 2) 7)\<lparr>data := 11\<rparr>), (1, sentinel 1 (sec 0))]\<rparr>)"
proof -
  have run: "api_run dt_undo_init
     [Start_group 1 (sec 0) 1, Start_group 2 (sec 1) 1, Record 3 (sec 2) 0 1 11 (Some 7) None,
      End_group 4 (sec 3), End_group 5 (sec 4)]
     = Inr (dt_undo_init\<lparr>undo_list :=
              [(5, sentinel 1 (sec 4)), (3, (plain_item 1 (sec 2) 7)\<lparr>data := 11\<rparr>), (1, sentinel 1 (sec 0))]\<rparr>,
            [])"
    using nested_groups_flatten [of dt_undo_init 1 1 "sec 0" 2 "sec 1" 3 "sec 2" 0 1 11 "Some 7" None 4 "sec 3" 5 "sec 4"]
    by (simp add: dt_undo_init_def DT_UNDO_NONE_def plain_item_def g_list_free_full_def)
  have calls: "list_all grouping_call
     [Start_group 1 (sec 0) 1, Start_group 2 (sec 1) 1, Record 3 (sec 2) 0 1 11 (Some 7) None,
      End_group 4 (sec 3), End_group 5 (sec 4)]"
    by (simp add: DT_UNDO_NONE_def)
  from nested_groups_flatten
    [of dt_undo_init 1 1 "sec 0" 2 "sec 1" 3 "sec 2" 0 1 11 "Some 7" None 4 "sec 3" 5 "sec 4"
        "[Start_group 1 (sec 0) 1, Start_group 2 (sec 1) 1, Record 3 (sec 2) 0 1 11 (Some 7) None,
          End_group 4 (sec 3), End_group 5 (sec 4)]"
        "dt_undo_init\<lparr>undo_list :=
              [(5, sentinel 1 (sec 4)), (3, (plain_item 1 (sec 2) 7)\<lparr>data := 11\<rparr>), (1, sentinel 1 (sec 0))]\<rparr>"
        "[]"]
    run calls
  show ?thesis by blast
qed

text \<open>
  C7 as stated fails for the states reached through the whole interface: after
  \<open>dt_undo_disable_next\<close> the record call of the start sentinel is the one that is
  suppressed, so start group, record, end group leave the recorded item under a single
  sentinel that has no partner.
\<close>

theorem suppressed_start_sentinel_breaks_pairing:
  "api_run dt_undo_init
     [Disable_next, Start_group 1 (sec 0) 1, Record 2 (sec 1) 0 1 11 (Some 7) None, End_group 3 (sec 2)]
     = Inr (dt_undo_init\<lparr>undo_list :=
              [(3, sentinel 1 (sec 2)), (2, (plain_item 1 (sec 1) 7)\<lparr>data := 11\<rparr>)]\<rparr>, [])
   \<and> \<not> flat_stacks (dt_undo_init\<lparr>undo_list :=
              [(3, sentinel 1 (sec 2)), (2, (plain_item 1 (sec 1) 7)\<lparr>data := 11\<rparr>)]\<rparr>)"
  by (simp add: dt_undo_init_def dt_undo_disable_next_def dt_undo_start_group_def
      dt_undo_end_group_def dt_undo_record_def undo_record_def DT_UNDO_NONE_def
      sentinel_def plain_item_def g_list_free_full_def flat_stacks_def Let_def)

end
